theory Spec2Isabelle
  imports Complex_Main "HOL-Library.Multiset"
begin

section \<open>TraceOfTab: key events of a tab's trace\<close>

text \<open>
  A shallow embedding of \<^verbatim>\<open>lighthouse-core/gather/computed/trace-of-tab.js\<close>.
  The computed artifact takes a raw trace, sorts the events of interest in
  chronological order, finds the navigation start and the paint events of the
  inspected frame, and returns them with the events of the tab's process.

  Numbers. A trace timestamp (\<^verbatim>\<open>ts\<close>, \<^verbatim>\<open>dur\<close>) is a count of microseconds and
  is an \<^typ>\<open>int\<close> here; a timing is a timestamp difference divided by 1000 and
  is a \<^typ>\<open>rat\<close>, so the division is exact. Process and thread ids are
  integers. The rounding of IEEE doubles is outside the model.

  Effects. The calls to \<^verbatim>\<open>Sentry.captureMessage\<close> and \<^verbatim>\<open>log.verbose\<close> on the
  fallback path write to a telemetry sink and a log; they do not take part in
  the returned value and are left out. A thrown \<^verbatim>\<open>LHError\<close> (a rejected promise)
  is the left summand of the result.
\<close>

subsection \<open>Trace events\<close>

text \<open>
  An event has a name, a category string, ids, a timestamp and an \<^verbatim>\<open>args\<close>
  object, as the type \<^verbatim>\<open>LH.TraceEvent\<close> requires; the duration, the frame of the
  arguments, their \<^verbatim>\<open>data\<close> and its \<^verbatim>\<open>documentLoaderURL\<close> may be missing.
\<close>

record args_data =
  documentLoaderURL :: "string option"

record event_args =
  frame :: "string option"
  data :: "args_data option"

record trace_event =
  name :: string
  cat :: string
  pid :: int
  tid :: int
  ts :: int
  dur :: "int option"
  args :: event_args

datatype lh_error = NO_TRACING_STARTED | NO_NAVSTART | NO_FCP | TypeError

subsection \<open>Strings and arrays of the host language\<close>

text \<open>\<^verbatim>\<open>s.startsWith(p)\<close>: the pattern is matched at position 0.\<close>

fun str_starts :: "string \<Rightarrow> string \<Rightarrow> bool" where
  "str_starts s [] = True"
| "str_starts [] (c # cs) = False"
| "str_starts (x # xs) (c # cs) = (x = c \<and> str_starts xs cs)"

text \<open>\<^verbatim>\<open>String.prototype.includes\<close>: the pattern occurs at some position.\<close>

fun str_includes :: "string \<Rightarrow> string \<Rightarrow> bool" where
  "str_includes [] sub = (sub = [])"
| "str_includes (x # xs) sub = (str_starts (x # xs) sub \<or> str_includes xs sub)"

text \<open>
  \<^verbatim>\<open>ACCEPTABLE_NAVIGATION_URL_REGEX = /^(chrome|https?):/\<close>, applied with
  \<^verbatim>\<open>test\<close>: anchored at the start, one of three alternatives followed by a colon.
\<close>

definition ACCEPTABLE_NAVIGATION_URL_REGEX_test :: "string \<Rightarrow> bool" where
  "ACCEPTABLE_NAVIGATION_URL_REGEX_test url \<longleftrightarrow>
     str_starts url ''chrome:'' \<or> str_starts url ''http:'' \<or> str_starts url ''https:''"

text \<open>\<^verbatim>\<open>xs.pop()\<close> read for its value: the last element, \<^verbatim>\<open>undefined\<close> on an empty array.\<close>

definition pop :: "'a list \<Rightarrow> 'a option" where
  "pop xs = (if xs = [] then None else Some (last xs))"

text \<open>
  \<^verbatim>\<open>xs.reduce(f)\<close> without an initial value: the first element starts the
  accumulator; on an empty array the call throws a TypeError.
\<close>

definition reduce :: "('a \<Rightarrow> 'a \<Rightarrow> 'a) \<Rightarrow> 'a list \<Rightarrow> lh_error + 'a" where
  "reduce f xs = (case xs of [] \<Rightarrow> Inl TypeError | x # rest \<Rightarrow> Inr (foldl f x rest))"

text \<open>
  \<^verbatim>\<open>xs.sort(cmp)\<close> with a comparison function returning a number: \<^verbatim>\<open>a\<close> goes
  before \<^verbatim>\<open>b\<close> when \<^verbatim>\<open>cmp(a, b) \<le> 0\<close>. The algorithm behind the host's sort
  is not fixed by the language; insertion sort stands for it. For the comparison
  function used below, which never returns 0 on two different indices, every
  sorting algorithm returns the same array (lemma \<open>array_sort_unique\<close>).
\<close>

fun insert_by :: "('a \<Rightarrow> 'a \<Rightarrow> int) \<Rightarrow> 'a \<Rightarrow> 'a list \<Rightarrow> 'a list" where
  "insert_by cmp x [] = [x]"
| "insert_by cmp x (y # ys) =
     (if cmp x y \<le> 0 then x # y # ys else y # insert_by cmp x ys)"

fun array_sort :: "('a \<Rightarrow> 'a \<Rightarrow> int) \<Rightarrow> 'a list \<Rightarrow> 'a list" where
  "array_sort cmp [] = []"
| "array_sort cmp (x # xs) = insert_by cmp x (array_sort cmp xs)"

subsection \<open>isNavigationStartOfInterest\<close>

text \<open>
  \<^verbatim>\<open>!event.args.data || !event.args.data.documentLoaderURL || REGEX.test(...)\<close>:
  the negation of a string is true for \<^verbatim>\<open>undefined\<close> and for the empty string.
\<close>

definition isNavigationStartOfInterest :: "trace_event \<Rightarrow> bool" where
  "isNavigationStartOfInterest event \<longleftrightarrow>
     name event = ''navigationStart'' \<and>
     (case data (args event) of
        None \<Rightarrow> True
      | Some d \<Rightarrow>
          (case documentLoaderURL d of
             None \<Rightarrow> True
           | Some url \<Rightarrow> url = [] \<or> ACCEPTABLE_NAVIGATION_URL_REGEX_test url))"

subsection \<open>filteredStableSort\<close>

text \<open>The first loop: the indices of the events that the filter keeps, in order.\<close>

definition keptIndices :: "trace_event list \<Rightarrow> (trace_event \<Rightarrow> bool) \<Rightarrow> nat list" where
  "keptIndices traceEvents flt =
     filter (\<lambda>srcIndex. flt (traceEvents ! srcIndex)) [0 ..< length traceEvents]"

text \<open>The comparison function: by \<^verbatim>\<open>ts\<close>, and by index where the \<^verbatim>\<open>ts\<close> are equal.\<close>

definition compareIndices :: "trace_event list \<Rightarrow> nat \<Rightarrow> nat \<Rightarrow> int" where
  "compareIndices traceEvents indexA indexB =
     (let result = ts (traceEvents ! indexA) - ts (traceEvents ! indexB)
      in if result \<noteq> 0 then result else int indexA - int indexB)"

definition filteredStableSort ::
    "trace_event list \<Rightarrow> (trace_event \<Rightarrow> bool) \<Rightarrow> trace_event list" where
  "filteredStableSort traceEvents flt =
     (let indices = keptIndices traceEvents flt;
          sortedIndices = array_sort (compareIndices traceEvents) indices
      in map (\<lambda>i. traceEvents ! i) sortedIndices)"

subsection \<open>The artifact\<close>

record trace =
  traceEvents :: "trace_event list"

record 'a trace_times =
  navigationStart :: 'a
  firstPaint :: "'a option"
  firstContentfulPaint :: 'a
  firstMeaningfulPaint :: "'a option"
  traceEnd :: 'a
  load :: "'a option"
  domContentLoaded :: "'a option"

record trace_of_tab =
  timings :: "rat trace_times"
  timestamps :: "int trace_times"
  processEvents :: "trace_event list"
  mainThreadEvents :: "trace_event list"
  startedInPageEvt :: trace_event
  navigationStartEvt :: trace_event
  firstPaintEvt :: "trace_event option"
  firstContentfulPaintEvt :: trace_event
  firstMeaningfulPaintEvt :: "trace_event option"
  loadEvt :: "trace_event option"
  domContentLoadedEvt :: "trace_event option"
  fmpFellBack :: bool

subsection \<open>compute\_\<close>

text \<open>The filter of the key events: by category.\<close>

definition isKeyEvent :: "trace_event \<Rightarrow> bool" where
  "isKeyEvent e \<longleftrightarrow>
     str_includes (cat e) ''blink.user_timing'' \<or>
     str_includes (cat e) ''loading'' \<or>
     str_includes (cat e) ''devtools.timeline'' \<or>
     cat e = ''__metadata''"

text \<open>The events of the inspected frame among the key events.\<close>

definition frameEventsOf :: "string \<Rightarrow> trace_event list \<Rightarrow> trace_event list" where
  "frameEventsOf frameId keyEvents = filter (\<lambda>e. frame (args e) = Some frameId) keyEvents"

text \<open>
  The predicate of the searches for a named event after the navigation start:
  \<^verbatim>\<open>e.name === nm && e.ts > navigationStart.ts\<close>.
\<close>

definition namedAfter :: "string \<Rightarrow> trace_event \<Rightarrow> trace_event \<Rightarrow> bool" where
  "namedAfter nm navStart e \<longleftrightarrow> name e = nm \<and> ts e > ts navStart"

text \<open>The function of the reduction that finds the end of the trace.\<close>

definition laterEvent :: "trace_event \<Rightarrow> trace_event \<Rightarrow> trace_event" where
  "laterEvent mx evt = (if ts mx > ts evt then mx else evt)"

text \<open>\<^verbatim>\<open>traceEnd.dur || 0\<close>: a missing duration and a duration 0 both give 0.\<close>

definition durOrZero :: "trace_event \<Rightarrow> int" where
  "durOrZero e = (case dur e of None \<Rightarrow> 0 | Some d \<Rightarrow> if d = 0 then 0 else d)"

definition getTimestamp :: "trace_event option \<Rightarrow> int option" where
  "getTimestamp event = map_option ts event"

definition getTiming :: "trace_event \<Rightarrow> int \<Rightarrow> rat" where
  "getTiming navStart t = of_int (t - ts navStart) / 1000"

definition maybeGetTiming :: "trace_event \<Rightarrow> int option \<Rightarrow> rat option" where
  "maybeGetTiming navStart t = (case t of None \<Rightarrow> None | Some v \<Rightarrow> Some (getTiming navStart v))"

text \<open>
  \<^verbatim>\<open>TracingProcessor.findTracingStartedEvt\<close> belongs to another module; it is
  the first argument of \<open>compute\<close>. Given the key events it returns the event that
  started the tracing in the page and the id of the inspected frame, or throws,
  and what it throws leaves \<open>compute\<close> unchanged.

  The name \<^verbatim>\<open>compute_\<close> of the source is not a name in Isabelle; the function is
  \<open>compute\<close> here.
\<close>

definition compute ::
    "(trace_event list \<Rightarrow> lh_error + trace_event \<times> string) \<Rightarrow> trace \<Rightarrow> lh_error + trace_of_tab"
where
  "compute findTracingStartedEvt tr =
    (let keyEvents = filteredStableSort (traceEvents tr) isKeyEvent in
     case findTracingStartedEvt keyEvents of
       Inl err \<Rightarrow> Inl err
     | Inr (startedInPage, frameId) \<Rightarrow>
        let frameEvents = frameEventsOf frameId keyEvents in
        case pop (filter isNavigationStartOfInterest frameEvents) of
          None \<Rightarrow> Inl NO_NAVSTART
        | Some navStart \<Rightarrow>
           let firstPaintE = find (namedAfter ''firstPaint'' navStart) frameEvents in
           case find (namedAfter ''firstContentfulPaint'' navStart) frameEvents of
             None \<Rightarrow> Inl NO_FCP
           | Some firstContentfulPaintE \<Rightarrow>
              let found = find (namedAfter ''firstMeaningfulPaint'' navStart) frameEvents;
                  fellBack = (found = None);
                  firstMeaningfulPaintE =
                    (if found = None
                     then pop (filter (\<lambda>e. name e = ''firstMeaningfulPaintCandidate'') frameEvents)
                     else found);
                  loadE = find (namedAfter ''loadEventEnd'' navStart) frameEvents;
                  domContentLoadedE =
                    find (namedAfter ''domContentLoadedEventEnd'' navStart) frameEvents;
                  processEvs =
                    filteredStableSort (traceEvents tr) (\<lambda>e. pid e = pid startedInPage);
                  mainThreadEvs = filter (\<lambda>e. tid e = tid startedInPage) processEvs
              in
              case reduce laterEvent (traceEvents tr) of
                Inl err \<Rightarrow> Inl err
              | Inr traceEndE \<Rightarrow>
                 let fakeEndOfTraceTs = ts traceEndE + durOrZero traceEndE;
                     stamps = \<lparr>navigationStart = ts navStart,
                               firstPaint = getTimestamp firstPaintE,
                               firstContentfulPaint = ts firstContentfulPaintE,
                               firstMeaningfulPaint = getTimestamp firstMeaningfulPaintE,
                               traceEnd = fakeEndOfTraceTs,
                               load = getTimestamp loadE,
                               domContentLoaded = getTimestamp domContentLoadedE\<rparr>;
                     tims = \<lparr>navigationStart = 0,
                             firstPaint = maybeGetTiming navStart (firstPaint stamps),
                             firstContentfulPaint =
                               getTiming navStart (firstContentfulPaint stamps),
                             firstMeaningfulPaint =
                               maybeGetTiming navStart (firstMeaningfulPaint stamps),
                             traceEnd = getTiming navStart (traceEnd stamps),
                             load = maybeGetTiming navStart (load stamps),
                             domContentLoaded =
                               maybeGetTiming navStart (domContentLoaded stamps)\<rparr>
                 in Inr \<lparr>timings = tims,
                         timestamps = stamps,
                         processEvents = processEvs,
                         mainThreadEvents = mainThreadEvs,
                         startedInPageEvt = startedInPage,
                         navigationStartEvt = navStart,
                         firstPaintEvt = firstPaintE,
                         firstContentfulPaintEvt = firstContentfulPaintE,
                         firstMeaningfulPaintEvt = firstMeaningfulPaintE,
                         loadEvt = loadE,
                         domContentLoadedEvt = domContentLoadedE,
                         fmpFellBack = fellBack\<rparr>)"


subsection \<open>Notions used in the statements\<close>

text \<open>The key events of a trace: the first step of \<open>compute\<close>.\<close>

definition keyEventsOf :: "trace \<Rightarrow> trace_event list" where
  "keyEventsOf tr = filteredStableSort (traceEvents tr) isKeyEvent"

text \<open>The order that \<open>compareIndices\<close> decides: by \<^verbatim>\<open>ts\<close>, then by index.\<close>

definition idx_le :: "trace_event list \<Rightarrow> nat \<Rightarrow> nat \<Rightarrow> bool" where
  "idx_le evs a b \<longleftrightarrow>
     ts (evs ! a) < ts (evs ! b) \<or> (ts (evs ! a) = ts (evs ! b) \<and> a \<le> b)"



text \<open>
  The specification's reading of the end of the trace: the maximum of
  timestamp plus duration over all events, a missing duration counting as 0.
\<close>

definition spec_traceEnd :: "trace_event list \<Rightarrow> int" where
  "spec_traceEnd evs =
     Max (set (map (\<lambda>e. ts e + (case dur e of None \<Rightarrow> 0 | Some d \<Rightarrow> d)) evs))"

subsection \<open>Example traces\<close>

text \<open>
  A user-timing event of frame \<open>F\<close> on the main thread of process 1, and the same
  with a document loader URL.
\<close>

definition ev :: "string \<Rightarrow> int \<Rightarrow> trace_event" where
  "ev nm t = \<lparr>name = nm, cat = ''blink.user_timing'', pid = 1, tid = 1, ts = t, dur = None,
              args = \<lparr>frame = Some ''F'', data = None\<rparr>\<rparr>"

definition evUrl :: "string \<Rightarrow> int \<Rightarrow> string \<Rightarrow> trace_event" where
  "evUrl nm t url =
     \<lparr>name = nm, cat = ''blink.user_timing'', pid = 1, tid = 1, ts = t, dur = None,
      args = \<lparr>frame = Some ''F'', data = Some \<lparr>documentLoaderURL = Some url\<rparr>\<rparr>\<rparr>"

text \<open>An event of no frame, with a category outside the key events.\<close>

definition task :: "int \<Rightarrow> int \<Rightarrow> int \<Rightarrow> int option \<Rightarrow> trace_event" where
  "task p t tm d = \<lparr>name = ''RunTask'', cat = ''toplevel'', pid = p, tid = t, ts = tm, dur = d,
                    args = \<lparr>frame = None, data = None\<rparr>\<rparr>"

text \<open>
  A synthetic frame resolver, as a test would inject it: the tab is process 1,
  thread 1, frame \<open>F\<close>.
\<close>

definition startedEvt :: trace_event where
  "startedEvt =
     \<lparr>name = ''TracingStartedInPage'', cat = ''disabled-by-default-devtools.timeline'',
      pid = 1, tid = 1, ts = 900, dur = None, args = \<lparr>frame = None, data = None\<rparr>\<rparr>"

definition syntheticResolver :: "trace_event list \<Rightarrow> lh_error + trace_event \<times> string" where
  "syntheticResolver keyEvents = Inr (startedEvt, ''F'')"

text \<open>
  A page load recorded out of order: two navigations, the later one to
  \<^verbatim>\<open>about:blank\<close>, both paints, a task of another process that ends the trace and
  a task on another thread of the tab's process.
\<close>

definition trace1 :: trace where
  "trace1 = \<lparr>traceEvents =
     [ev ''firstContentfulPaint'' 2500,
      evUrl ''navigationStart'' 1000 ''https://example.com/'',
      ev ''firstMeaningfulPaint'' 3000,
      evUrl ''navigationStart'' 1200 ''about:blank'',
      task 2 7 5000 (Some 40),
      task 1 2 2500 None]\<rparr>"

definition result1 :: trace_of_tab where
  "result1 =
     \<lparr>timings =
        \<lparr>navigationStart = 0, firstPaint = None, firstContentfulPaint = 3 / 2,
         firstMeaningfulPaint = Some 2, traceEnd = 101 / 25, load = None,
         domContentLoaded = None\<rparr>,
      timestamps =
        \<lparr>navigationStart = 1000, firstPaint = None, firstContentfulPaint = 2500,
         firstMeaningfulPaint = Some 3000, traceEnd = 5040, load = None,
         domContentLoaded = None\<rparr>,
      processEvents =
        [evUrl ''navigationStart'' 1000 ''https://example.com/'',
         evUrl ''navigationStart'' 1200 ''about:blank'',
         ev ''firstContentfulPaint'' 2500,
         task 1 2 2500 None,
         ev ''firstMeaningfulPaint'' 3000],
      mainThreadEvents =
        [evUrl ''navigationStart'' 1000 ''https://example.com/'',
         evUrl ''navigationStart'' 1200 ''about:blank'',
         ev ''firstContentfulPaint'' 2500,
         ev ''firstMeaningfulPaint'' 3000],
      startedInPageEvt = startedEvt,
      navigationStartEvt = evUrl ''navigationStart'' 1000 ''https://example.com/'',
      firstPaintEvt = None,
      firstContentfulPaintEvt = ev ''firstContentfulPaint'' 2500,
      firstMeaningfulPaintEvt = Some (ev ''firstMeaningfulPaint'' 3000),
      loadEvt = None,
      domContentLoadedEvt = None,
      fmpFellBack = False\<rparr>"

text \<open>
  No first meaningful paint; two candidates, both before the navigation start,
  the later one first in the trace.
\<close>

definition trace_candidates :: trace where
  "trace_candidates = \<lparr>traceEvents =
     [ev ''firstMeaningfulPaintCandidate'' 800,
      ev ''navigationStart'' 1000,
      ev ''firstContentfulPaint'' 1500,
      ev ''firstMeaningfulPaintCandidate'' 600]\<rparr>"

text \<open>The first meaningful paint is recorded before the first contentful paint.\<close>

definition trace_fmp_first :: trace where
  "trace_fmp_first = \<lparr>traceEvents =
     [ev ''navigationStart'' 1000,
      ev ''firstMeaningfulPaint'' 2000,
      ev ''firstContentfulPaint'' 3000]\<rparr>"

text \<open>A long task starts before the last event and ends after it.\<close>

definition trace_long_task :: trace where
  "trace_long_task = \<lparr>traceEvents =
     [ev ''navigationStart'' 1000,
      task 1 1 1500 (Some 10000),
      ev ''firstContentfulPaint'' 2000]\<rparr>"


text \<open>The first contentful paint has the timestamp of the navigation start.\<close>

definition trace_fcp_not_after :: trace where
  "trace_fcp_not_after = \<lparr>traceEvents =
     [ev ''firstContentfulPaint'' 1000,
      ev ''navigationStart'' 1000,
      ev ''firstPaint'' 1400]\<rparr>"

section \<open>Properties\<close>

subsection \<open>The host's sort with the comparison of filteredStableSort\<close>

lemma compareIndices_le: "compareIndices evs a b \<le> 0 \<longleftrightarrow> idx_le evs a b"
  by (auto simp: compareIndices_def idx_le_def Let_def)

lemma idx_le_total: "idx_le evs a b \<or> idx_le evs b a"
  by (auto simp: idx_le_def)

lemma idx_le_trans: "idx_le evs a b \<Longrightarrow> idx_le evs b c \<Longrightarrow> idx_le evs a c"
  by (auto simp: idx_le_def)

lemma idx_le_antisym: "idx_le evs a b \<Longrightarrow> idx_le evs b a \<Longrightarrow> a = b"
  by (auto simp: idx_le_def)

lemma mset_insert_by: "mset (insert_by cmp x xs) = add_mset x (mset xs)"
  by (induction xs) auto

lemma mset_array_sort: "mset (array_sort cmp xs) = mset xs"
  by (induction xs) (auto simp: mset_insert_by)

lemma set_insert_by: "set (insert_by cmp x xs) = insert x (set xs)"
  by (induction xs) auto

lemma set_array_sort: "set (array_sort cmp xs) = set xs"
  by (induction xs) (auto simp: set_insert_by)

lemma sorted_insert_by:
  "sorted_wrt (idx_le evs) xs \<Longrightarrow> sorted_wrt (idx_le evs) (insert_by (compareIndices evs) x xs)"
proof (induction xs)
  case Nil
  show ?case by simp
next
  case (Cons y ys)
  show ?case
  proof (cases "idx_le evs x y")
    case True
    with Cons.prems show ?thesis
      by (auto simp: compareIndices_le intro: idx_le_trans)
  next
    case False
    then have "idx_le evs y x" using idx_le_total by blast
    with False Cons show ?thesis
      by (auto simp: compareIndices_le set_insert_by)
  qed
qed

lemma sorted_array_sort: "sorted_wrt (idx_le evs) (array_sort (compareIndices evs) xs)"
  by (induction xs) (auto simp: sorted_insert_by)

text \<open>
  Two arrangements of the same indices that both respect the comparison are the
  same array: whatever algorithm the host sorts with, the outcome is that of
  \<open>array_sort\<close>.
\<close>

lemma sorted_wrt_idx_le_unique:
  "sorted_wrt (idx_le evs) xs \<Longrightarrow> sorted_wrt (idx_le evs) ys \<Longrightarrow> mset xs = mset ys \<Longrightarrow> xs = ys"
proof (induction xs arbitrary: ys)
  case Nil
  then show ?case by simp
next
  case (Cons x xs)
  then obtain y ys' where ys: "ys = y # ys'" by (cases ys) auto
  have xin: "x \<in> set ys" and yin: "y \<in> set (x # xs)"
    using Cons.prems(3) ys by (metis list.set_intros(1) mset_eq_setD)+
  have "x = y"
  proof (rule ccontr)
    assume ne: "x \<noteq> y"
    with xin ys have "x \<in> set ys'" by simp
    with Cons.prems(2) ys have 1: "idx_le evs y x" by simp
    from ne yin have "y \<in> set xs" by simp
    with Cons.prems(1) have 2: "idx_le evs x y" by simp
    from 1 2 ne show False using idx_le_antisym by blast
  qed
  with Cons ys show ?case by simp
qed

lemma array_sort_unique:
  assumes "mset ys = mset xs"
    and "sorted_wrt (\<lambda>a b. compareIndices evs a b \<le> 0) ys"
  shows "ys = array_sort (compareIndices evs) xs"
proof (rule sorted_wrt_idx_le_unique)
  show "sorted_wrt (idx_le evs) ys" using assms(2) by (simp add: compareIndices_le)
  show "sorted_wrt (idx_le evs) (array_sort (compareIndices evs) xs)" by (rule sorted_array_sort)
  show "mset ys = mset (array_sort (compareIndices evs) xs)"
    using assms(1) by (simp add: mset_array_sort)
qed

subsection \<open>filteredStableSort filters, sorts and is stable\<close>

lemma map_nth_keptIndices: "map (\<lambda>i. evs ! i) (keptIndices evs p) = filter p evs"
proof -
  have "filter p (map (\<lambda>i. evs ! i) [0 ..< length evs]) = filter p evs"
    by (simp add: map_nth)
  then show ?thesis
    by (simp add: keptIndices_def filter_map comp_def)
qed

lemma mset_filteredStableSort: "mset (filteredStableSort evs p) = mset (filter p evs)"
proof -
  have "mset (filteredStableSort evs p) = image_mset (\<lambda>i. evs ! i) (mset (keptIndices evs p))"
    by (simp add: filteredStableSort_def mset_array_sort)
  also have "\<dots> = mset (map (\<lambda>i. evs ! i) (keptIndices evs p))" by simp
  finally show ?thesis by (simp only: map_nth_keptIndices)
qed

lemma set_filteredStableSort: "set (filteredStableSort evs p) = {e \<in> set evs. p e}"
proof -
  have "set (filteredStableSort evs p) = set (filter p evs)"
    using mset_filteredStableSort [of evs p] by (rule mset_eq_setD)
  then show ?thesis by simp
qed

lemma sorted_filteredStableSort: "sorted (map ts (filteredStableSort evs p))"
proof -
  have "sorted_wrt (\<lambda>a b. ts (evs ! a) \<le> ts (evs ! b))
          (array_sort (compareIndices evs) (keptIndices evs p))"
    by (rule sorted_wrt_mono_rel [OF _ sorted_array_sort]) (auto simp: idx_le_def)
  then show ?thesis
    by (simp add: filteredStableSort_def sorted_wrt_map comp_def)
qed

lemma stable_indices:
  "filter (\<lambda>i. ts (evs ! i) = k) (array_sort (compareIndices evs) (keptIndices evs p))
     = filter (\<lambda>i. ts (evs ! i) = k) (keptIndices evs p)"
  (is "?L = ?R")
proof (rule sorted_distinct_set_unique)
  have "sorted_wrt (idx_le evs) ?L"
    by (rule sorted_wrt_filter) (rule sorted_array_sort)
  then have "sorted_wrt (\<le>) ?L"
    by (rule sorted_wrt_mono_rel [rotated]) (auto simp: idx_le_def)
  then show "sorted ?L" by simp
  have d: "distinct (keptIndices evs p)"
    by (simp add: keptIndices_def)
  then have "distinct (array_sort (compareIndices evs) (keptIndices evs p))"
    by (metis mset_array_sort mset_eq_imp_distinct_iff)
  then show "distinct ?L" by simp
  have "sorted (keptIndices evs p)"
    by (simp add: keptIndices_def sorted_filter [where f = "\<lambda>x. x", simplified])
  then show "sorted ?R"
    using sorted_filter [where f = "\<lambda>x. x", simplified] by blast
  show "distinct ?R" using d by simp
  show "set ?L = set ?R" by (simp add: set_array_sort)
qed

lemma stable_filteredStableSort:
  "filter (\<lambda>e. ts e = k) (filteredStableSort evs p) = filter (\<lambda>e. ts e = k) (filter p evs)"
proof -
  have "filter (\<lambda>e. ts e = k) (filteredStableSort evs p)
        = map (\<lambda>i. evs ! i) (filter (\<lambda>i. ts (evs ! i) = k)
            (array_sort (compareIndices evs) (keptIndices evs p)))"
    by (simp add: filteredStableSort_def filter_map comp_def)
  also have "\<dots> = map (\<lambda>i. evs ! i) (filter (\<lambda>i. ts (evs ! i) = k) (keptIndices evs p))"
    by (simp only: stable_indices)
  also have "\<dots> = filter (\<lambda>e. ts e = k) (map (\<lambda>i. evs ! i) (keptIndices evs p))"
    by (simp add: filter_map comp_def)
  finally show ?thesis by (simp only: map_nth_keptIndices)
qed

text \<open>The function is the library's stable insertion sort of the filtered array.\<close>

lemma filteredStableSort_sort_key:
  "filteredStableSort evs p = sort_key ts (filter p evs)"
proof (rule sym, rule properties_for_sort_key)
  show "mset (filteredStableSort evs p) = mset (filter p evs)"
    by (rule mset_filteredStableSort)
  show "sorted (map ts (filteredStableSort evs p))"
    by (rule sorted_filteredStableSort)
  fix k
  show "filter (\<lambda>x. ts k = ts x) (filteredStableSort evs p)
          = filter (\<lambda>x. ts k = ts x) (filter p evs)"
    using stable_filteredStableSort [of "ts k" evs p] by (simp add: eq_commute)
qed

text \<open>
  Claim C7. For every event sequence and every predicate, filteredStableSort
  returns exactly the events that satisfy the predicate, each as often as the
  input has it; the result is in ascending order of timestamp; and the events
  of any one timestamp stand in the result in the order they have in the input.
\<close>

theorem filteredStableSort_correct:
  "mset (filteredStableSort evs p) = mset (filter p evs)
   \<and> sorted (map ts (filteredStableSort evs p))
   \<and> (\<forall>k. filter (\<lambda>e. ts e = k) (filteredStableSort evs p)
            = filter (\<lambda>e. ts e = k) (filter p evs))"
  using mset_filteredStableSort [of evs p] sorted_filteredStableSort [of evs p]
    stable_filteredStableSort [of _ evs p]
  by simp

subsection \<open>Arrays: pop, find, reduce\<close>

lemma pop_None: "pop xs = None \<longleftrightarrow> xs = []"
  by (simp add: pop_def)

lemma pop_filter_None: "pop (filter P xs) = None \<longleftrightarrow> (\<forall>e\<in>set xs. \<not> P e)"
  by (simp add: pop_def filter_empty_conv)

lemma pop_filter_Some:
  "pop (filter P xs) = Some x
     \<longleftrightarrow> (\<exists>pre post. xs = pre @ x # post \<and> P x \<and> (\<forall>e\<in>set post. \<not> P e))"
proof
  assume "pop (filter P xs) = Some x"
  then have ne: "filter P xs \<noteq> []" and x: "x = last (filter P xs)"
    by (auto simp: pop_def split: if_splits)
  from ne have "\<exists>e\<in>set xs. P e" by (auto simp: filter_empty_conv)
  from split_list_last_prop [OF this]
  obtain pre y post where s: "xs = pre @ y # post" "P y" "\<forall>e\<in>set post. \<not> P e"
    by (elim exE conjE)
  then have "filter P xs = filter P pre @ [y]" by simp
  with x have "x = y" by simp
  with s show "\<exists>pre post. xs = pre @ x # post \<and> P x \<and> (\<forall>e\<in>set post. \<not> P e)"
    by (intro exI [of _ pre] exI [of _ post]) simp
next
  assume "\<exists>pre post. xs = pre @ x # post \<and> P x \<and> (\<forall>e\<in>set post. \<not> P e)"
  then obtain pre post where s: "xs = pre @ x # post" "P x" "\<forall>e\<in>set post. \<not> P e"
    by (elim exE conjE)
  then have "filter P xs = filter P pre @ [x]" by simp
  then show "pop (filter P xs) = Some x" by (simp add: pop_def)
qed

lemma find_Some_holds: "find P xs = Some x \<Longrightarrow> P x \<and> x \<in> set xs"
  by (induction xs) (auto split: if_splits)

lemma find_None_set: "find P xs = None \<longleftrightarrow> (\<forall>e\<in>set xs. \<not> P e)"
  by (induction xs) auto

lemma foldl_laterEvent:
  "\<exists>pre post. x # xs = pre @ foldl laterEvent x xs # post
      \<and> (\<forall>e\<in>set pre. ts e \<le> ts (foldl laterEvent x xs))
      \<and> (\<forall>e\<in>set post. ts e < ts (foldl laterEvent x xs))"
proof (induction xs rule: rev_induct)
  case Nil
  show ?case by (rule exI [of _ "[]"], rule exI [of _ "[]"]) simp
next
  case (snoc y ys)
  let ?m = "foldl laterEvent x ys"
  from snoc obtain pre post where s: "x # ys = pre @ ?m # post"
     "\<forall>e\<in>set pre. ts e \<le> ts ?m" "\<forall>e\<in>set post. ts e < ts ?m"
    by (elim exE conjE)
  show ?case
  proof (cases "ts ?m > ts y")
    case True
    then have r: "foldl laterEvent x (ys @ [y]) = ?m" by (simp add: laterEvent_def)
    have "x # ys @ [y] = pre @ ?m # (post @ [y])" using s(1) by simp
    moreover have "\<forall>e\<in>set (post @ [y]). ts e < ts ?m" using s(3) True by simp
    ultimately show ?thesis unfolding r using s(2)
      by (intro exI [of _ pre] exI [of _ "post @ [y]"]) simp
  next
    case False
    then have r: "foldl laterEvent x (ys @ [y]) = y" by (simp add: laterEvent_def)
    have le: "\<forall>e\<in>set (x # ys). ts e \<le> ts y"
    proof
      fix e assume "e \<in> set (x # ys)"
      then have "e \<in> set pre \<or> e = ?m \<or> e \<in> set post" unfolding s(1) by auto
      then have "ts e \<le> ts ?m" using s(2,3) by fastforce
      with False show "ts e \<le> ts y" by simp
    qed
    show ?thesis unfolding r using le
      by (intro exI [of _ "x # ys"] exI [of _ "[]"]) simp
  qed
qed

lemma reduce_laterEvent_Inr:
  assumes "reduce laterEvent evs = Inr m"
  shows "\<exists>pre post. evs = pre @ m # post
      \<and> (\<forall>e\<in>set pre. ts e \<le> ts m) \<and> (\<forall>e\<in>set post. ts e < ts m)"
proof (cases evs)
  case Nil
  with assms show ?thesis by (simp add: reduce_def)
next
  case (Cons x xs)
  with assms have "m = foldl laterEvent x xs" by (simp add: reduce_def)
  with foldl_laterEvent [of x xs] Cons show ?thesis by simp
qed

lemma reduce_nonempty: "evs \<noteq> [] \<Longrightarrow> \<exists>m. reduce f evs = Inr m"
  by (cases evs) (simp_all add: reduce_def)

lemma reduce_Inl: "reduce f evs = Inl err \<Longrightarrow> evs = [] \<and> err = TypeError"
  by (cases evs) (simp_all add: reduce_def)


lemma durOrZero_eq: "durOrZero e = (case dur e of None \<Rightarrow> 0 | Some d \<Rightarrow> d)"
  by (simp add: durOrZero_def split: option.splits)

subsection \<open>The branches of compute\<close>

lemma compute_resolver_error:
  assumes "f (keyEventsOf tr) = Inl err"
  shows "compute f tr = Inl err"
  using assms unfolding compute_def keyEventsOf_def Let_def by simp

lemma compute_no_nav:
  assumes "f (keyEventsOf tr) = Inr (s, fid)"
    and "pop (filter isNavigationStartOfInterest (frameEventsOf fid (keyEventsOf tr))) = None"
  shows "compute f tr = Inl NO_NAVSTART"
  using assms unfolding compute_def keyEventsOf_def Let_def by simp

lemma compute_no_fcp:
  assumes "f (keyEventsOf tr) = Inr (s, fid)"
    and "pop (filter isNavigationStartOfInterest (frameEventsOf fid (keyEventsOf tr))) = Some nav"
    and "find (namedAfter ''firstContentfulPaint'' nav) (frameEventsOf fid (keyEventsOf tr)) = None"
  shows "compute f tr = Inl NO_FCP"
  using assms unfolding compute_def keyEventsOf_def Let_def by simp

lemma compute_unfold:
  assumes "f (keyEventsOf tr) = Inr (s, fid)"
    and "pop (filter isNavigationStartOfInterest (frameEventsOf fid (keyEventsOf tr))) = Some nav"
    and "find (namedAfter ''firstContentfulPaint'' nav) (frameEventsOf fid (keyEventsOf tr)) = Some fcp"
    and "reduce laterEvent (traceEvents tr) = Inr m"
  shows "compute f tr =
    Inr \<lparr>timings =
          \<lparr>navigationStart = 0,
           firstPaint = maybeGetTiming nav (getTimestamp
              (find (namedAfter ''firstPaint'' nav) (frameEventsOf fid (keyEventsOf tr)))),
           firstContentfulPaint = getTiming nav (ts fcp),
           firstMeaningfulPaint = maybeGetTiming nav (getTimestamp
              (if find (namedAfter ''firstMeaningfulPaint'' nav) (frameEventsOf fid (keyEventsOf tr)) = None
               then pop (filter (\<lambda>e. name e = ''firstMeaningfulPaintCandidate'')
                      (frameEventsOf fid (keyEventsOf tr)))
               else find (namedAfter ''firstMeaningfulPaint'' nav) (frameEventsOf fid (keyEventsOf tr)))),
           traceEnd = getTiming nav (ts m + durOrZero m),
           load = maybeGetTiming nav (getTimestamp
              (find (namedAfter ''loadEventEnd'' nav) (frameEventsOf fid (keyEventsOf tr)))),
           domContentLoaded = maybeGetTiming nav (getTimestamp
              (find (namedAfter ''domContentLoadedEventEnd'' nav) (frameEventsOf fid (keyEventsOf tr))))\<rparr>,
         timestamps =
          \<lparr>navigationStart = ts nav,
           firstPaint = getTimestamp
              (find (namedAfter ''firstPaint'' nav) (frameEventsOf fid (keyEventsOf tr))),
           firstContentfulPaint = ts fcp,
           firstMeaningfulPaint = getTimestamp
              (if find (namedAfter ''firstMeaningfulPaint'' nav) (frameEventsOf fid (keyEventsOf tr)) = None
               then pop (filter (\<lambda>e. name e = ''firstMeaningfulPaintCandidate'')
                      (frameEventsOf fid (keyEventsOf tr)))
               else find (namedAfter ''firstMeaningfulPaint'' nav) (frameEventsOf fid (keyEventsOf tr))),
           traceEnd = ts m + durOrZero m,
           load = getTimestamp
              (find (namedAfter ''loadEventEnd'' nav) (frameEventsOf fid (keyEventsOf tr))),
           domContentLoaded = getTimestamp
              (find (namedAfter ''domContentLoadedEventEnd'' nav) (frameEventsOf fid (keyEventsOf tr)))\<rparr>,
         processEvents = filteredStableSort (traceEvents tr) (\<lambda>e. pid e = pid s),
         mainThreadEvents =
           filter (\<lambda>e. tid e = tid s) (filteredStableSort (traceEvents tr) (\<lambda>e. pid e = pid s)),
         startedInPageEvt = s,
         navigationStartEvt = nav,
         firstPaintEvt = find (namedAfter ''firstPaint'' nav) (frameEventsOf fid (keyEventsOf tr)),
         firstContentfulPaintEvt = fcp,
         firstMeaningfulPaintEvt =
           (if find (namedAfter ''firstMeaningfulPaint'' nav) (frameEventsOf fid (keyEventsOf tr)) = None
            then pop (filter (\<lambda>e. name e = ''firstMeaningfulPaintCandidate'')
                   (frameEventsOf fid (keyEventsOf tr)))
            else find (namedAfter ''firstMeaningfulPaint'' nav) (frameEventsOf fid (keyEventsOf tr))),
         loadEvt = find (namedAfter ''loadEventEnd'' nav) (frameEventsOf fid (keyEventsOf tr)),
         domContentLoadedEvt =
           find (namedAfter ''domContentLoadedEventEnd'' nav) (frameEventsOf fid (keyEventsOf tr)),
         fmpFellBack =
           (find (namedAfter ''firstMeaningfulPaint'' nav) (frameEventsOf fid (keyEventsOf tr)) = None)\<rparr>"
  using assms unfolding compute_def keyEventsOf_def Let_def by simp

lemma compute_Inr_elim:
  assumes "compute f tr = Inr r"
  obtains s fid nav fcp m where
    "f (keyEventsOf tr) = Inr (s, fid)"
    "pop (filter isNavigationStartOfInterest (frameEventsOf fid (keyEventsOf tr))) = Some nav"
    "find (namedAfter ''firstContentfulPaint'' nav) (frameEventsOf fid (keyEventsOf tr)) = Some fcp"
    "reduce laterEvent (traceEvents tr) = Inr m"
  using assms unfolding compute_def keyEventsOf_def Let_def
  by (auto split: sum.splits option.splits prod.splits)

lemma keyEventsOf_Nil: "traceEvents tr = [] \<Longrightarrow> keyEventsOf tr = []"
  by (simp add: keyEventsOf_def filteredStableSort_def keptIndices_def)

lemma nav_found_nonempty:
  assumes "pop (filter isNavigationStartOfInterest (frameEventsOf fid (keyEventsOf tr))) = Some nav"
  shows "traceEvents tr \<noteq> []"
proof
  assume "traceEvents tr = []"
  then have "keyEventsOf tr = []" by (rule keyEventsOf_Nil)
  with assms show False by (simp add: frameEventsOf_def pop_def)
qed

text \<open>
  Claim C9. When the frame resolver has answered and a navigation start of
  interest was found among the frame events, the trace has at least one event:
  the reduction that finds the last event returns an event, and \<open>compute\<close> does
  not fail with the TypeError of a reduction over an empty array.
\<close>

theorem traceEnd_reduce_defined:
  assumes "f (keyEventsOf tr) = Inr (s, fid)"
    and "pop (filter isNavigationStartOfInterest (frameEventsOf fid (keyEventsOf tr))) = Some nav"
  shows "traceEvents tr \<noteq> []
     \<and> (\<exists>m. reduce laterEvent (traceEvents tr) = Inr m)
     \<and> compute f tr \<noteq> Inl TypeError"
proof -
  have ne: "traceEvents tr \<noteq> []" using assms(2) by (rule nav_found_nonempty)
  then obtain m where m: "reduce laterEvent (traceEvents tr) = Inr m"
    using reduce_nonempty by blast
  have "compute f tr \<noteq> Inl TypeError"
  proof (cases "find (namedAfter ''firstContentfulPaint'' nav) (frameEventsOf fid (keyEventsOf tr))")
    case None
    with assms show ?thesis by (simp add: compute_no_fcp)
  next
    case (Some fcp)
    with assms m show ?thesis by (simp add: compute_unfold)
  qed
  with ne m show ?thesis by simp
qed

text \<open>
  Claim C4. When the frame resolver has answered, \<open>compute\<close> fails with
  NO_NAVSTART exactly when no frame event is a navigation start of interest, and
  with NO_FCP exactly when a navigation start was found and no frame event named
  firstContentfulPaint has a timestamp strictly greater than its timestamp. It
  returns a result exactly when both were found, and it fails with no other
  error: a failure returns no result, and no other missing marker is an error.
\<close>

theorem fatal_errors_exactly:
  assumes "f (keyEventsOf tr) = Inr (s, fid)"
  shows "(compute f tr = Inl NO_NAVSTART
            \<longleftrightarrow> \<not> (\<exists>e\<in>set (frameEventsOf fid (keyEventsOf tr)). isNavigationStartOfInterest e))
     \<and> (compute f tr = Inl NO_FCP
            \<longleftrightarrow> (\<exists>nav. pop (filter isNavigationStartOfInterest (frameEventsOf fid (keyEventsOf tr))) = Some nav
                  \<and> \<not> (\<exists>e\<in>set (frameEventsOf fid (keyEventsOf tr)).
                          name e = ''firstContentfulPaint'' \<and> ts e > ts nav)))
     \<and> ((\<exists>r. compute f tr = Inr r)
            \<longleftrightarrow> (\<exists>nav. pop (filter isNavigationStartOfInterest (frameEventsOf fid (keyEventsOf tr))) = Some nav
                  \<and> (\<exists>e\<in>set (frameEventsOf fid (keyEventsOf tr)).
                          name e = ''firstContentfulPaint'' \<and> ts e > ts nav)))
     \<and> (\<forall>err. compute f tr = Inl err \<longrightarrow> err = NO_NAVSTART \<or> err = NO_FCP)"
proof (cases "pop (filter isNavigationStartOfInterest (frameEventsOf fid (keyEventsOf tr)))")
  case None
  then have c: "compute f tr = Inl NO_NAVSTART" using assms by (simp add: compute_no_nav)
  from None have "\<not> (\<exists>e\<in>set (frameEventsOf fid (keyEventsOf tr)). isNavigationStartOfInterest e)"
    by (simp add: pop_filter_None)
  with c None show ?thesis by simp
next
  case (Some nav)
  then have ex: "\<exists>e\<in>set (frameEventsOf fid (keyEventsOf tr)). isNavigationStartOfInterest e"
    by (auto simp: pop_filter_Some)
  show ?thesis
  proof (cases "find (namedAfter ''firstContentfulPaint'' nav) (frameEventsOf fid (keyEventsOf tr))")
    case None
    then have c: "compute f tr = Inl NO_FCP" using assms Some by (simp add: compute_no_fcp)
    from None have "\<not> (\<exists>e\<in>set (frameEventsOf fid (keyEventsOf tr)).
                          name e = ''firstContentfulPaint'' \<and> ts e > ts nav)"
      by (simp add: find_None_set namedAfter_def)
    with c Some ex show ?thesis by simp
  next
    case (Some fcp)
    from nav_found_nonempty [OF \<open>pop _ = Some nav\<close>] obtain m
      where m: "reduce laterEvent (traceEvents tr) = Inr m"
      using reduce_nonempty by blast
    have c: "\<exists>r. compute f tr = Inr r"
      using compute_unfold [of f tr s fid nav fcp m] assms \<open>pop _ = Some nav\<close> Some m by simp
    from find_Some_holds [OF Some]
    have "\<exists>e\<in>set (frameEventsOf fid (keyEventsOf tr)).
                          name e = ''firstContentfulPaint'' \<and> ts e > ts nav"
      by (auto simp: namedAfter_def)
    with c \<open>pop _ = Some nav\<close> ex show ?thesis by auto
  qed
qed

lemma compute_trace1: "compute syntheticResolver trace1 = Inr result1"
  by code_simp

lemma resolver_trace1: "syntheticResolver (keyEventsOf trace1) = Inr (startedEvt, ''F'')"
  by (simp add: syntheticResolver_def)

lemma nav_trace1:
  "pop (filter isNavigationStartOfInterest (frameEventsOf ''F'' (keyEventsOf trace1)))
     = Some (evUrl ''navigationStart'' 1000 ''https://example.com/'')"
  by code_simp

theorem traceEnd_reduce_defined_witness:
  "syntheticResolver (keyEventsOf trace1) = Inr (startedEvt, ''F'')
   \<and> pop (filter isNavigationStartOfInterest (frameEventsOf ''F'' (keyEventsOf trace1)))
       = Some (evUrl ''navigationStart'' 1000 ''https://example.com/'')
   \<and> traceEvents trace1 \<noteq> []
   \<and> (\<exists>m. reduce laterEvent (traceEvents trace1) = Inr m)
   \<and> compute syntheticResolver trace1 \<noteq> Inl TypeError"
  using traceEnd_reduce_defined [of syntheticResolver trace1 startedEvt "''F''"
      "evUrl ''navigationStart'' 1000 ''https://example.com/''"]
    resolver_trace1 nav_trace1
  by simp

lemma resolver_fcp_not_after:
  "syntheticResolver (keyEventsOf trace_fcp_not_after) = Inr (startedEvt, ''F'')"
  by (simp add: syntheticResolver_def)

lemma nav_fcp_not_after:
  "pop (filter isNavigationStartOfInterest (frameEventsOf ''F'' (keyEventsOf trace_fcp_not_after)))
     = Some (ev ''navigationStart'' 1000)"
  by code_simp

lemma no_fcp_fcp_not_after:
  "\<not> (\<exists>e\<in>set (frameEventsOf ''F'' (keyEventsOf trace_fcp_not_after)).
          name e = ''firstContentfulPaint'' \<and> ts e > ts (ev ''navigationStart'' 1000))"
  by code_simp

theorem fatal_errors_exactly_witness:
  "syntheticResolver (keyEventsOf trace_fcp_not_after) = Inr (startedEvt, ''F'')
   \<and> compute syntheticResolver trace_fcp_not_after = Inl NO_FCP"
proof -
  have "\<exists>nav. pop (filter isNavigationStartOfInterest
                  (frameEventsOf ''F'' (keyEventsOf trace_fcp_not_after))) = Some nav
          \<and> \<not> (\<exists>e\<in>set (frameEventsOf ''F'' (keyEventsOf trace_fcp_not_after)).
                  name e = ''firstContentfulPaint'' \<and> ts e > ts nav)"
    using nav_fcp_not_after no_fcp_fcp_not_after by blast
  with fatal_errors_exactly [of syntheticResolver trace_fcp_not_after startedEvt "''F''"]
    resolver_fcp_not_after
  show ?thesis by blast
qed

text \<open>
  Claim C6. In every result, the timing of the navigation start is 0; the timing
  of every other marker is its timestamp minus the timestamp of the navigation
  start, divided by 1000; a marker without a timestamp has no timing. With the
  navigation start at 1000 and the first contentful paint at 2500, the timing of
  the first contentful paint is 1.5.
\<close>

theorem timings_projection:
  assumes "compute f tr = Inr r"
  shows "navigationStart (timings r) = 0
     \<and> firstContentfulPaint (timings r)
         = of_int (firstContentfulPaint (timestamps r) - navigationStart (timestamps r)) / 1000
     \<and> traceEnd (timings r)
         = of_int (traceEnd (timestamps r) - navigationStart (timestamps r)) / 1000
     \<and> firstPaint (timings r)
         = map_option (\<lambda>t. of_int (t - navigationStart (timestamps r)) / 1000)
             (firstPaint (timestamps r))
     \<and> firstMeaningfulPaint (timings r)
         = map_option (\<lambda>t. of_int (t - navigationStart (timestamps r)) / 1000)
             (firstMeaningfulPaint (timestamps r))
     \<and> load (timings r)
         = map_option (\<lambda>t. of_int (t - navigationStart (timestamps r)) / 1000)
             (load (timestamps r))
     \<and> domContentLoaded (timings r)
         = map_option (\<lambda>t. of_int (t - navigationStart (timestamps r)) / 1000)
             (domContentLoaded (timestamps r))
     \<and> (navigationStart (timestamps r) = 1000 \<and> firstContentfulPaint (timestamps r) = 2500
          \<longrightarrow> firstContentfulPaint (timings r) = 3 / 2)"
proof -
  from assms obtain s fid nav fcp m where h:
    "f (keyEventsOf tr) = Inr (s, fid)"
    "pop (filter isNavigationStartOfInterest (frameEventsOf fid (keyEventsOf tr))) = Some nav"
    "find (namedAfter ''firstContentfulPaint'' nav) (frameEventsOf fid (keyEventsOf tr)) = Some fcp"
    "reduce laterEvent (traceEvents tr) = Inr m"
    by (rule compute_Inr_elim)
  have mg: "\<And>x. maybeGetTiming nav x = map_option (\<lambda>t. of_int (t - ts nav) / 1000) x"
    by (simp add: maybeGetTiming_def getTiming_def split: option.splits)
  from compute_unfold [of f tr s fid nav fcp m] h assms
  show ?thesis by (auto simp: mg getTiming_def)
qed

theorem timings_projection_witness:
  "compute syntheticResolver trace1 = Inr result1
   \<and> navigationStart (timestamps result1) = 1000
   \<and> firstContentfulPaint (timestamps result1) = 2500
   \<and> navigationStart (timings result1) = 0
   \<and> firstContentfulPaint (timings result1) = 3 / 2
   \<and> firstPaint (timestamps result1) = None
   \<and> firstPaint (timings result1) = None"
  using timings_projection [OF compute_trace1] compute_trace1
  by (simp add: result1_def)

text \<open>
  Claim C8. In every result, processEvents holds exactly the events of the whole
  trace whose process id is that of the event returned by the frame resolver;
  mainThreadEvents holds those of processEvents whose thread id is also that of
  this event, so it is a subset of processEvents; and every event of
  processEvents has the process id of this event.
\<close>

theorem process_scoping:
  assumes "compute f tr = Inr r"
  shows "(\<exists>fid. f (keyEventsOf tr) = Inr (startedInPageEvt r, fid))
     \<and> mset (processEvents r)
         = mset (filter (\<lambda>e. pid e = pid (startedInPageEvt r)) (traceEvents tr))
     \<and> mainThreadEvents r = filter (\<lambda>e. tid e = tid (startedInPageEvt r)) (processEvents r)
     \<and> set (mainThreadEvents r) \<subseteq> set (processEvents r)
     \<and> (\<forall>e\<in>set (processEvents r). pid e = pid (startedInPageEvt r))"
proof -
  from assms obtain s fid nav fcp m where h:
    "f (keyEventsOf tr) = Inr (s, fid)"
    "pop (filter isNavigationStartOfInterest (frameEventsOf fid (keyEventsOf tr))) = Some nav"
    "find (namedAfter ''firstContentfulPaint'' nav) (frameEventsOf fid (keyEventsOf tr)) = Some fcp"
    "reduce laterEvent (traceEvents tr) = Inr m"
    by (rule compute_Inr_elim)
  from compute_unfold [of f tr s fid nav fcp m] h assms
  have s: "startedInPageEvt r = s"
    and p: "processEvents r = filteredStableSort (traceEvents tr) (\<lambda>e. pid e = pid s)"
    and t: "mainThreadEvents r = filter (\<lambda>e. tid e = tid s) (processEvents r)"
    by auto
  have "\<exists>fid. f (keyEventsOf tr) = Inr (startedInPageEvt r, fid)" using h(1) s by blast
  moreover have "mset (processEvents r)
         = mset (filter (\<lambda>e. pid e = pid (startedInPageEvt r)) (traceEvents tr))"
    unfolding p s by (rule mset_filteredStableSort)
  moreover have "set (mainThreadEvents r) \<subseteq> set (processEvents r)" unfolding t by auto
  moreover have "\<forall>e\<in>set (processEvents r). pid e = pid (startedInPageEvt r)"
    unfolding p s by (simp add: set_filteredStableSort)
  ultimately show ?thesis using t s by simp
qed

theorem process_scoping_witness:
  "compute syntheticResolver trace1 = Inr result1
   \<and> mset (processEvents result1)
       = mset (filter (\<lambda>e. pid e = pid (startedInPageEvt result1)) (traceEvents trace1))
   \<and> mainThreadEvents result1
       = filter (\<lambda>e. tid e = tid (startedInPageEvt result1)) (processEvents result1)"
  using process_scoping [OF compute_trace1] compute_trace1
  by simp

text \<open>
  Claim C10. In every result, mainThreadEvents is in ascending order of
  timestamp, and its events of any one timestamp stand in the order they have in
  the input trace: it is the stable sort of the events of the trace that have
  the process id and the thread id of the tab.
\<close>

theorem mainThreadEvents_sorted_stable:
  assumes "compute f tr = Inr r"
  shows "sorted (map ts (mainThreadEvents r))
     \<and> (\<forall>k. filter (\<lambda>e. ts e = k) (mainThreadEvents r)
              = filter (\<lambda>e. ts e = k)
                  (filter (\<lambda>e. pid e = pid (startedInPageEvt r) \<and> tid e = tid (startedInPageEvt r))
                     (traceEvents tr)))
     \<and> mainThreadEvents r
         = sort_key ts
             (filter (\<lambda>e. pid e = pid (startedInPageEvt r) \<and> tid e = tid (startedInPageEvt r))
                (traceEvents tr))"
proof -
  from assms obtain s fid nav fcp m where h:
    "f (keyEventsOf tr) = Inr (s, fid)"
    "pop (filter isNavigationStartOfInterest (frameEventsOf fid (keyEventsOf tr))) = Some nav"
    "find (namedAfter ''firstContentfulPaint'' nav) (frameEventsOf fid (keyEventsOf tr)) = Some fcp"
    "reduce laterEvent (traceEvents tr) = Inr m"
    by (rule compute_Inr_elim)
  from compute_unfold [of f tr s fid nav fcp m] h assms
  have s: "startedInPageEvt r = s"
    and t: "mainThreadEvents r
        = filter (\<lambda>e. tid e = tid s) (filteredStableSort (traceEvents tr) (\<lambda>e. pid e = pid s))"
    by auto
  have eq: "mainThreadEvents r
      = sort_key ts (filter (\<lambda>e. pid e = pid s \<and> tid e = tid s) (traceEvents tr))"
    unfolding t by (simp add: filteredStableSort_sort_key filter_sort conj_commute)
  have "sorted (map ts (mainThreadEvents r))" unfolding eq by simp
  moreover have "\<forall>k. filter (\<lambda>e. ts e = k) (mainThreadEvents r)
              = filter (\<lambda>e. ts e = k)
                  (filter (\<lambda>e. pid e = pid s \<and> tid e = tid s) (traceEvents tr))"
    unfolding eq by (simp only: sort_key_stable) simp
  ultimately show ?thesis using eq s by simp
qed

theorem mainThreadEvents_sorted_stable_witness:
  "compute syntheticResolver trace1 = Inr result1
   \<and> sorted (map ts (mainThreadEvents result1))
   \<and> filter (\<lambda>e. ts e = 2500) (mainThreadEvents result1) = [ev ''firstContentfulPaint'' 2500]"
proof -
  note t = mainThreadEvents_sorted_stable [OF compute_trace1]
  from t have a: "sorted (map ts (mainThreadEvents result1))"
    by (rule conjunct1)
  from t have "\<forall>k. filter (\<lambda>e. ts e = k) (mainThreadEvents result1)
              = filter (\<lambda>e. ts e = k)
                  (filter (\<lambda>e. pid e = pid (startedInPageEvt result1)
                              \<and> tid e = tid (startedInPageEvt result1))
                     (traceEvents trace1))"
    by (rule conjunct1 [OF conjunct2])
  then have b: "filter (\<lambda>e. ts e = 2500) (mainThreadEvents result1)
              = filter (\<lambda>e. ts e = 2500)
                  (filter (\<lambda>e. pid e = pid (startedInPageEvt result1)
                              \<and> tid e = tid (startedInPageEvt result1))
                     (traceEvents trace1))"
    by (rule spec)
  have c: "filter (\<lambda>e. ts e = 2500)
             (filter (\<lambda>e. pid e = pid (startedInPageEvt result1)
                         \<and> tid e = tid (startedInPageEvt result1))
                (traceEvents trace1)) = [ev ''firstContentfulPaint'' 2500]"
    by code_simp
  from compute_trace1 a trans [OF b c] show ?thesis by (intro conjI)
qed

subsection \<open>The first meaningful paint and its fallback\<close>

text \<open>
  Claim C5. Let the frame resolver have answered, and a navigation start and a
  first contentful paint be found, so that no fatal error arises. Then
  \<open>compute\<close> returns a result. If no frame event named firstMeaningfulPaint has a
  timestamp strictly after the navigation start, fmpFellBack is true and the
  marker is the last frame event named firstMeaningfulPaintCandidate, wherever
  it stands with respect to the navigation start; if there is no candidate
  either, the marker is absent from the events, the timestamps and the timings.
  If such a firstMeaningfulPaint event is found, it is the marker and
  fmpFellBack is false.
\<close>

theorem firstMeaningfulPaint_fallback:
  assumes "f (keyEventsOf tr) = Inr (s, fid)"
    and "pop (filter isNavigationStartOfInterest (frameEventsOf fid (keyEventsOf tr))) = Some nav"
    and "find (namedAfter ''firstContentfulPaint'' nav) (frameEventsOf fid (keyEventsOf tr)) = Some fcp"
  shows "\<exists>r. compute f tr = Inr r
     \<and> firstMeaningfulPaint (timestamps r) = map_option ts (firstMeaningfulPaintEvt r)
     \<and> (find (\<lambda>e. name e = ''firstMeaningfulPaint'' \<and> ts e > ts nav)
            (frameEventsOf fid (keyEventsOf tr)) = None
          \<longrightarrow> fmpFellBack r
              \<and> firstMeaningfulPaintEvt r
                  = pop (filter (\<lambda>e. name e = ''firstMeaningfulPaintCandidate'')
                      (frameEventsOf fid (keyEventsOf tr)))
              \<and> (\<forall>c. firstMeaningfulPaintEvt r = Some c
                    \<longrightarrow> (\<exists>pre post. frameEventsOf fid (keyEventsOf tr) = pre @ c # post
                           \<and> name c = ''firstMeaningfulPaintCandidate''
                           \<and> (\<forall>e\<in>set post. name e \<noteq> ''firstMeaningfulPaintCandidate'')))
              \<and> ((\<forall>e\<in>set (frameEventsOf fid (keyEventsOf tr)).
                      name e \<noteq> ''firstMeaningfulPaintCandidate'')
                    \<longrightarrow> firstMeaningfulPaintEvt r = None
                        \<and> firstMeaningfulPaint (timestamps r) = None
                        \<and> firstMeaningfulPaint (timings r) = None))
     \<and> (\<forall>e. find (\<lambda>e. name e = ''firstMeaningfulPaint'' \<and> ts e > ts nav)
                (frameEventsOf fid (keyEventsOf tr)) = Some e
          \<longrightarrow> \<not> fmpFellBack r \<and> firstMeaningfulPaintEvt r = Some e)
     \<and> (find (\<lambda>e. name e = ''firstMeaningfulPaint'' \<and> ts e > ts nav)
            (frameEventsOf fid (keyEventsOf tr)) = None
          \<longleftrightarrow> (\<forall>e\<in>set (frameEventsOf fid (keyEventsOf tr)).
                 \<not> (name e = ''firstMeaningfulPaint'' \<and> ts e > ts nav)))"
proof -
  let ?FE = "frameEventsOf fid (keyEventsOf tr)"
  let ?cand = "pop (filter (\<lambda>e. name e = ''firstMeaningfulPaintCandidate'') ?FE)"
  have na: "namedAfter ''firstMeaningfulPaint'' nav
              = (\<lambda>e. name e = ''firstMeaningfulPaint'' \<and> ts e > ts nav)"
    by (rule ext) (simp add: namedAfter_def)
  from nav_found_nonempty [OF assms(2)] obtain m
    where m: "reduce laterEvent (traceEvents tr) = Inr m"
    using reduce_nonempty by blast
  note u = compute_unfold [of f tr s fid nav fcp m, unfolded na]
  from u assms m obtain r where r: "compute f tr = Inr r"
    and fb: "fmpFellBack r
        = (find (\<lambda>e. name e = ''firstMeaningfulPaint'' \<and> ts e > ts nav) ?FE = None)"
    and ev: "firstMeaningfulPaintEvt r
        = (if find (\<lambda>e. name e = ''firstMeaningfulPaint'' \<and> ts e > ts nav) ?FE = None
           then ?cand
           else find (\<lambda>e. name e = ''firstMeaningfulPaint'' \<and> ts e > ts nav) ?FE)"
    and st: "firstMeaningfulPaint (timestamps r) = getTimestamp (firstMeaningfulPaintEvt r)"
    and ti: "firstMeaningfulPaint (timings r)
        = maybeGetTiming nav (getTimestamp (firstMeaningfulPaintEvt r))"
    by simp
  have last_cand: "\<forall>c. ?cand = Some c
      \<longrightarrow> (\<exists>pre post. ?FE = pre @ c # post
             \<and> name c = ''firstMeaningfulPaintCandidate''
             \<and> (\<forall>e\<in>set post. name e \<noteq> ''firstMeaningfulPaintCandidate''))"
    by (simp add: pop_filter_Some)
  have no_cand: "(\<forall>e\<in>set ?FE. name e \<noteq> ''firstMeaningfulPaintCandidate'') \<longrightarrow> ?cand = None"
    using pop_filter_None [of "\<lambda>e. name e = ''firstMeaningfulPaintCandidate''" ?FE] by blast
  show ?thesis
  proof (intro exI [of _ r] conjI impI allI)
    show "compute f tr = Inr r" by (rule r)
    show "firstMeaningfulPaint (timestamps r) = map_option ts (firstMeaningfulPaintEvt r)"
      using st by (simp add: getTimestamp_def)
  next
    assume "find (\<lambda>e. name e = ''firstMeaningfulPaint'' \<and> ts e > ts nav) ?FE = None"
    then show "fmpFellBack r" using fb by simp
  next
    assume "find (\<lambda>e. name e = ''firstMeaningfulPaint'' \<and> ts e > ts nav) ?FE = None"
    then show "firstMeaningfulPaintEvt r = ?cand" using ev by simp
  next
    fix c
    assume "find (\<lambda>e. name e = ''firstMeaningfulPaint'' \<and> ts e > ts nav) ?FE = None"
      and "firstMeaningfulPaintEvt r = Some c"
    then have "?cand = Some c" using ev by simp
    with last_cand show "\<exists>pre post. ?FE = pre @ c # post
             \<and> name c = ''firstMeaningfulPaintCandidate''
             \<and> (\<forall>e\<in>set post. name e \<noteq> ''firstMeaningfulPaintCandidate'')"
      by blast
  next
    assume n: "find (\<lambda>e. name e = ''firstMeaningfulPaint'' \<and> ts e > ts nav) ?FE = None"
      and "\<forall>e\<in>set ?FE. name e \<noteq> ''firstMeaningfulPaintCandidate''"
    with no_cand have "?cand = None" by blast
    with n ev show e: "firstMeaningfulPaintEvt r = None" by simp
    from e st show "firstMeaningfulPaint (timestamps r) = None" by (simp add: getTimestamp_def)
    from e ti show "firstMeaningfulPaint (timings r) = None"
      by (simp add: getTimestamp_def maybeGetTiming_def)
  next
    fix e
    assume s: "find (\<lambda>e. name e = ''firstMeaningfulPaint'' \<and> ts e > ts nav) ?FE = Some e"
    then show "\<not> fmpFellBack r" using fb by simp
    from s show "firstMeaningfulPaintEvt r = Some e" using ev by simp
  next
    show "find (\<lambda>e. name e = ''firstMeaningfulPaint'' \<and> ts e > ts nav) ?FE = None
          \<longleftrightarrow> (\<forall>e\<in>set ?FE. \<not> (name e = ''firstMeaningfulPaint'' \<and> ts e > ts nav))"
      by (rule find_None_set)
  qed
qed

lemma resolver_candidates:
  "syntheticResolver (keyEventsOf trace_candidates) = Inr (startedEvt, ''F'')"
  by (simp add: syntheticResolver_def)

lemma nav_candidates:
  "pop (filter isNavigationStartOfInterest (frameEventsOf ''F'' (keyEventsOf trace_candidates)))
     = Some (ev ''navigationStart'' 1000)"
  by code_simp

lemma fcp_candidates:
  "find (namedAfter ''firstContentfulPaint'' (ev ''navigationStart'' 1000))
     (frameEventsOf ''F'' (keyEventsOf trace_candidates)) = Some (ev ''firstContentfulPaint'' 1500)"
  by code_simp

lemma no_fmp_candidates:
  "find (\<lambda>e. name e = ''firstMeaningfulPaint'' \<and> ts e > ts (ev ''navigationStart'' 1000))
     (frameEventsOf ''F'' (keyEventsOf trace_candidates)) = None"
  by code_simp

lemma last_candidate_candidates:
  "pop (filter (\<lambda>e. name e = ''firstMeaningfulPaintCandidate'')
     (frameEventsOf ''F'' (keyEventsOf trace_candidates)))
     = Some (ev ''firstMeaningfulPaintCandidate'' 800)"
  by code_simp

theorem firstMeaningfulPaint_fallback_witness:
  "syntheticResolver (keyEventsOf trace_candidates) = Inr (startedEvt, ''F'')
   \<and> pop (filter isNavigationStartOfInterest (frameEventsOf ''F'' (keyEventsOf trace_candidates)))
       = Some (ev ''navigationStart'' 1000)
   \<and> find (namedAfter ''firstContentfulPaint'' (ev ''navigationStart'' 1000))
       (frameEventsOf ''F'' (keyEventsOf trace_candidates)) = Some (ev ''firstContentfulPaint'' 1500)
   \<and> (\<exists>r. compute syntheticResolver trace_candidates = Inr r
          \<and> fmpFellBack r
          \<and> firstMeaningfulPaintEvt r = Some (ev ''firstMeaningfulPaintCandidate'' 800)
          \<and> firstMeaningfulPaint (timestamps r) = Some 800)"
proof -
  from firstMeaningfulPaint_fallback [of syntheticResolver trace_candidates startedEvt "''F''"
      "ev ''navigationStart'' 1000" "ev ''firstContentfulPaint'' 1500"]
    resolver_candidates nav_candidates fcp_candidates no_fmp_candidates last_candidate_candidates
  obtain r where "compute syntheticResolver trace_candidates = Inr r"
    and "fmpFellBack r"
    and "firstMeaningfulPaintEvt r = Some (ev ''firstMeaningfulPaintCandidate'' 800)"
    and "firstMeaningfulPaint (timestamps r)
           = map_option ts (Some (ev ''firstMeaningfulPaintCandidate'' 800))"
    by auto
  then have "\<exists>r. compute syntheticResolver trace_candidates = Inr r
          \<and> fmpFellBack r
          \<and> firstMeaningfulPaintEvt r = Some (ev ''firstMeaningfulPaintCandidate'' 800)
          \<and> firstMeaningfulPaint (timestamps r) = Some 800"
    by (intro exI [of _ r]) (simp add: ev_def)
  with resolver_candidates nav_candidates fcp_candidates show ?thesis by (intro conjI)
qed

subsection \<open>The order of the paints\<close>

lemma getTiming_pos: "ts nav < t \<Longrightarrow> 0 < getTiming nav t"
  by (simp add: getTiming_def)

lemma find_namedAfter_timing:
  assumes "find (namedAfter nm nav) xs = Some e"
  shows "0 < getTiming nav (ts e)"
  using find_Some_holds [OF assms] by (simp add: namedAfter_def getTiming_pos)

lemma maybe_find_namedAfter_timing:
  assumes "maybeGetTiming nav (getTimestamp (find (namedAfter nm nav) xs)) = Some t"
  shows "0 < t"
proof (cases "find (namedAfter nm nav) xs")
  case None
  with assms show ?thesis by (simp add: maybeGetTiming_def getTimestamp_def)
next
  case (Some e)
  with assms have "t = getTiming nav (ts e)" by (simp add: maybeGetTiming_def getTimestamp_def)
  with find_namedAfter_timing [OF Some] show ?thesis by simp
qed

text \<open>
  Claim C1, amended. Every marker found by a search after the navigation start
  is strictly later than the navigation start: in every result the timing of
  the navigation start is 0 and that of the first contentful paint is positive;
  when the first meaningful paint was found directly (fmpFellBack is false) its
  timing is present and positive; the timings of the first paint, of the load
  and of the DOM content loaded are positive when present. Nothing orders the
  first contentful paint and the first meaningful paint with respect to each
  other.
\<close>

theorem paints_after_navigation_start:
  assumes "compute f tr = Inr r"
  shows "navigationStart (timings r) = 0
     \<and> 0 < firstContentfulPaint (timings r)
     \<and> (\<not> fmpFellBack r \<longrightarrow> (\<exists>t. firstMeaningfulPaint (timings r) = Some t \<and> 0 < t))
     \<and> (\<forall>t. firstPaint (timings r) = Some t \<longrightarrow> 0 < t)
     \<and> (\<forall>t. load (timings r) = Some t \<longrightarrow> 0 < t)
     \<and> (\<forall>t. domContentLoaded (timings r) = Some t \<longrightarrow> 0 < t)"
proof -
  from assms obtain s fid nav fcp m where h:
    "f (keyEventsOf tr) = Inr (s, fid)"
    "pop (filter isNavigationStartOfInterest (frameEventsOf fid (keyEventsOf tr))) = Some nav"
    "find (namedAfter ''firstContentfulPaint'' nav) (frameEventsOf fid (keyEventsOf tr)) = Some fcp"
    "reduce laterEvent (traceEvents tr) = Inr m"
    by (rule compute_Inr_elim)
  let ?FE = "frameEventsOf fid (keyEventsOf tr)"
  from compute_unfold [of f tr s fid nav fcp m] h assms
  have n: "navigationStart (timings r) = 0"
    and c: "firstContentfulPaint (timings r) = getTiming nav (ts fcp)"
    and fb: "fmpFellBack r = (find (namedAfter ''firstMeaningfulPaint'' nav) ?FE = None)"
    and fm: "\<not> fmpFellBack r \<longrightarrow> firstMeaningfulPaint (timings r)
          = maybeGetTiming nav (getTimestamp (find (namedAfter ''firstMeaningfulPaint'' nav) ?FE))"
    and fp: "firstPaint (timings r)
          = maybeGetTiming nav (getTimestamp (find (namedAfter ''firstPaint'' nav) ?FE))"
    and lo: "load (timings r)
          = maybeGetTiming nav (getTimestamp (find (namedAfter ''loadEventEnd'' nav) ?FE))"
    and dc: "domContentLoaded (timings r)
          = maybeGetTiming nav (getTimestamp (find (namedAfter ''domContentLoadedEventEnd'' nav) ?FE))"
    by auto
  have 1: "0 < firstContentfulPaint (timings r)"
    unfolding c using h(3) by (rule find_namedAfter_timing)
  have 2: "\<not> fmpFellBack r \<longrightarrow> (\<exists>t. firstMeaningfulPaint (timings r) = Some t \<and> 0 < t)"
  proof
    assume nf: "\<not> fmpFellBack r"
    with fb obtain e where e: "find (namedAfter ''firstMeaningfulPaint'' nav) ?FE = Some e"
      by auto
    with fm nf have "firstMeaningfulPaint (timings r) = Some (getTiming nav (ts e))"
      by (simp add: maybeGetTiming_def getTimestamp_def)
    with find_namedAfter_timing [OF e]
    show "\<exists>t. firstMeaningfulPaint (timings r) = Some t \<and> 0 < t" by simp
  qed
  have 3: "\<forall>t. firstPaint (timings r) = Some t \<longrightarrow> 0 < t"
    unfolding fp using maybe_find_namedAfter_timing by blast
  have 4: "\<forall>t. load (timings r) = Some t \<longrightarrow> 0 < t"
    unfolding lo using maybe_find_namedAfter_timing by blast
  have 5: "\<forall>t. domContentLoaded (timings r) = Some t \<longrightarrow> 0 < t"
    unfolding dc using maybe_find_namedAfter_timing by blast
  from n 1 2 3 4 5 show ?thesis by (intro conjI)
qed

theorem paints_after_navigation_start_witness:
  "compute syntheticResolver trace1 = Inr result1
   \<and> navigationStart (timings result1) = 0
   \<and> 0 < firstContentfulPaint (timings result1)
   \<and> fmpFellBack result1 = False
   \<and> (\<exists>t. firstMeaningfulPaint (timings result1) = Some t \<and> 0 < t)"
proof -
  have nf: "fmpFellBack result1 = False" by (simp add: result1_def)
  with paints_after_navigation_start [OF compute_trace1] compute_trace1
  show ?thesis by simp
qed

text \<open>
  The order \<open>firstContentfulPaint \<le> firstMeaningfulPaint\<close> of the timings fails
  on a trace that records the first meaningful paint before the first
  contentful paint, both after the navigation start and without any fallback.
\<close>

theorem fcp_le_fmp_counterexample:
  "\<not> isl (compute syntheticResolver trace_fmp_first)
   \<and> firstContentfulPaint (timings (projr (compute syntheticResolver trace_fmp_first))) = 2
   \<and> firstMeaningfulPaint (timings (projr (compute syntheticResolver trace_fmp_first))) = Some 1
   \<and> \<not> fmpFellBack (projr (compute syntheticResolver trace_fmp_first))
   \<and> \<not> (firstContentfulPaint (timings (projr (compute syntheticResolver trace_fmp_first)))
         \<le> the (firstMeaningfulPaint (timings (projr (compute syntheticResolver trace_fmp_first)))))"
  by code_simp

text \<open>It fails on the fallback path too: a candidate may precede the navigation start.\<close>

lemma fcp_le_fmp_fallback_example:
  "\<not> isl (compute syntheticResolver trace_candidates)
   \<and> fmpFellBack (projr (compute syntheticResolver trace_candidates))
   \<and> firstContentfulPaint (timings (projr (compute syntheticResolver trace_candidates))) = 1 / 2
   \<and> firstMeaningfulPaint (timings (projr (compute syntheticResolver trace_candidates)))
       = Some (- 1 / 5)"
  by code_simp

subsection \<open>The end of the trace\<close>

text \<open>
  What the reduction computes: the event of the whole trace with the greatest
  timestamp, the last one of the trace where several have it; the traceEnd
  timestamp is the end of that one event.
\<close>

lemma traceEnd_of_latest_event:
  assumes "compute f tr = Inr r"
  shows "\<exists>pre m post. traceEvents tr = pre @ m # post
     \<and> (\<forall>e\<in>set pre. ts e \<le> ts m)
     \<and> (\<forall>e\<in>set post. ts e < ts m)
     \<and> traceEnd (timestamps r) = ts m + (case dur m of None \<Rightarrow> 0 | Some d \<Rightarrow> d)"
proof -
  from assms obtain s fid nav fcp m where h:
    "f (keyEventsOf tr) = Inr (s, fid)"
    "pop (filter isNavigationStartOfInterest (frameEventsOf fid (keyEventsOf tr))) = Some nav"
    "find (namedAfter ''firstContentfulPaint'' nav) (frameEventsOf fid (keyEventsOf tr)) = Some fcp"
    "reduce laterEvent (traceEvents tr) = Inr m"
    by (rule compute_Inr_elim)
  from compute_unfold [of f tr s fid nav fcp m] h assms
  have e: "traceEnd (timestamps r) = ts m + (case dur m of None \<Rightarrow> 0 | Some d \<Rightarrow> d)"
    by (auto simp: durOrZero_eq)
  from reduce_laterEvent_Inr [OF h(4)] obtain pre post
    where "traceEvents tr = pre @ m # post" "\<forall>e\<in>set pre. ts e \<le> ts m" "\<forall>e\<in>set post. ts e < ts m"
    by (elim exE conjE)
  with e show ?thesis by (intro exI [of _ pre] exI [of _ m] exI [of _ post] conjI)
qed

text \<open>
  Claim C2. The traceEnd timestamp is to be the maximum, over all events of the
  whole trace, of timestamp plus duration, a missing duration counting as 0. The
  code does not return it on the trace of a navigation start at 1000, a task
  that starts at 1500 and lasts 10000, and a first contentful paint at 2000:
  the reduction maximises the timestamp alone and adds the duration of the
  event it selects, so traceEnd is 2000, while the task ends at 11500.
\<close>

theorem traceEnd_misses_longer_event:
  "\<not> isl (compute syntheticResolver trace_long_task)
   \<and> traceEnd (timestamps (projr (compute syntheticResolver trace_long_task))) = 2000
   \<and> spec_traceEnd (traceEvents trace_long_task) = 11500
   \<and> traceEnd (timestamps (projr (compute syntheticResolver trace_long_task)))
       \<noteq> spec_traceEnd (traceEvents trace_long_task)"
  by code_simp

subsection \<open>The navigation start\<close>






end
